theory Spec2Isabelle
  imports Main
begin

section \<open>Python values, objects and exceptions\<close>

text \<open>
  A shallow embedding of \<^verbatim>\<open>jupyter_events/logger.py\<close> (class \<^verbatim>\<open>EventLogger\<close>).
  Event data is a Python \<^verbatim>\<open>dict\<close> with string keys: a map from keys to values.
  Dictionaries that the caller, the modifiers and the listeners share live in an object
  store (a list of dictionaries, addressed by position), so that copying a dictionary
  and mutating it in place are different things. The address of a dictionary that
  exists is below the length of the store.
\<close>

datatype pyval =
    PNone
  | PBool bool
  | PInt int
  | PStr string
  | PList "pyval list"
  | PDict "(string \<times> pyval) list"

type_synonym pydict = "string \<rightharpoonup> pyval"

type_synonym addr = nat

type_synonym store = "pydict list"

text \<open>\<^verbatim>\<open>copy.deepcopy(data)\<close>: a new object with the same content.\<close>

definition deepcopy :: "store \<Rightarrow> addr \<Rightarrow> addr \<times> store" where
  "deepcopy h a = (length h, h @ [h ! a])"

text \<open>
  A Python object handed to \<^verbatim>\<open>add_modifier\<close> or \<^verbatim>\<open>add_listener\<close>: either not
  callable, or a function with what \<^verbatim>\<open>inspect.signature\<close> reads from it (the
  parameters with their annotations, and the return annotation). The number is the
  object's identity: sets of callables compare by it.
\<close>

type_synonym signature = "(string \<times> string) list \<times> string"

datatype pyobj = Obj nat | Fn nat signature

fun callable :: "pyobj \<Rightarrow> bool" where
  "callable (Obj _) = False"
| "callable (Fn _ _) = True"

fun inspect_signature :: "pyobj \<Rightarrow> signature" where
  "inspect_signature (Fn _ s) = s"
| "inspect_signature (Obj _) = ([], [])"

definition modifier_signature :: signature where
  "modifier_signature = ([(''schema_id'', ''str''), (''data'', ''dict'')], ''dict'')"

definition listener_signature :: signature where
  "listener_signature =
     ([(''logger'', ''EventLogger''), (''schema_id'', ''str''), (''data'', ''dict'')], ''None'')"

datatype exn =
    KeyError "string option"
  | TypeError
  | ModifierError
  | ListenerError
  | ValidationError
  | SchemaRegistrationError

datatype 'a result = Raised exn | Returned 'a

definition EVENTS_METADATA_VERSION :: int where
  "EVENTS_METADATA_VERSION = 1"

section \<open>The schema registry\<close>

text \<open>
  Modelled from the spec: the class \<^verbatim>\<open>SchemaRegistry\<close> (module \<^verbatim>\<open>schema_registry\<close>)
  is not part of the source file. The spec gives its contract: it resolves a schema
  identifier to a schema object exposing an id, a version and a validation operation;
  \<^verbatim>\<open>register(source)\<close> returns the descriptor or fails with a registration error (the
  policy is the registry's own), \<^verbatim>\<open>contains(id)\<close> is a boolean, and
  \<^verbatim>\<open>validate(data)\<close> is ok or raises a validation error.
\<close>

record event_schema =
  id' :: string
  version :: pyval
  validate :: "pydict \<Rightarrow> bool"

type_synonym schema_registry = "event_schema list"

text \<open>Modelled from the spec: \<^verbatim>\<open>SchemaRegistry.schema_ids\<close>, the ids of the registry.\<close>

definition schema_ids :: "schema_registry \<Rightarrow> string list" where
  "schema_ids reg = map id' reg"

text \<open>Modelled from the spec: \<^verbatim>\<open>schema_id in self.schemas\<close>, the spec's \<^verbatim>\<open>contains(id)\<close>.\<close>

definition contains :: "schema_registry \<Rightarrow> string \<Rightarrow> bool" where
  "contains reg key = (key \<in> set (schema_ids reg))"

text \<open>Modelled from the spec: \<^verbatim>\<open>SchemaRegistry.get\<close>, the schema object of an id.\<close>

definition get :: "schema_registry \<Rightarrow> string \<Rightarrow> event_schema option" where
  "get reg key = find (\<lambda>s. id' s = key) reg"

text \<open>
  Modelled from the spec: \<^verbatim>\<open>SchemaRegistry.register\<close>. The registry's policy is the
  parameter \<open>accepts\<close>; an accepted schema replaces the entry of the same id, or is added.
\<close>

definition register ::
  "(schema_registry \<Rightarrow> event_schema \<Rightarrow> bool) \<Rightarrow> schema_registry \<Rightarrow> event_schema
     \<Rightarrow> (event_schema \<times> schema_registry) result" where
  "register accepts reg schema =
     (if accepts reg schema
      then Returned (schema, filter (\<lambda>s. id' s \<noteq> id' schema) reg @ [schema])
      else Raised SchemaRegistrationError)"

section \<open>The event logger\<close>

text \<open>
  The traits of \<^verbatim>\<open>EventLogger\<close>: \<^verbatim>\<open>handlers\<close>, \<^verbatim>\<open>schemas\<close>, \<^verbatim>\<open>_modifiers\<close>,
  \<^verbatim>\<open>_modified_listeners\<close>, \<^verbatim>\<open>_unmodified_listeners\<close> (dictionaries from schema id
  to a set of callables) and \<^verbatim>\<open>_active_listeners\<close>. A task is the coroutine call it
  wraps: the listener, the schema id and the dictionary it was given. Beside them the
  state holds the object store and the calls made on the collaborators, in order:
  \<^verbatim>\<open>warnings.warn\<close>, \<^verbatim>\<open>SchemaRegistry.validate_event\<close> and \<^verbatim>\<open>Logger.info\<close>.
\<close>

type_synonym table = "string \<rightharpoonup> pyobj set"

type_synonym task = "pyobj \<times> string \<times> addr"

datatype call =
    Warn string
  | ValidateEvent string addr
  | LogInfo pydict

record event_logger =
  handlers :: "nat list"
  schemas :: schema_registry
  modifiers :: table
  modified_listeners :: table
  unmodified_listeners :: table
  active_listeners :: "task list"
  heap :: store
  calls :: "call list"

text \<open>A new \<^verbatim>\<open>EventLogger()\<close> with the default traits, in a store \<open>h\<close>.\<close>

definition new_logger :: "store \<Rightarrow> event_logger" where
  "new_logger h =
     \<lparr>handlers = [], schemas = [], modifiers = Map.empty, modified_listeners = Map.empty,
      unmodified_listeners = Map.empty, active_listeners = [], heap = h, calls = []\<rparr>"

text \<open>The envelopes handed to \<^verbatim>\<open>self._logger.info\<close> so far.\<close>

fun recorded :: "call list \<Rightarrow> pydict list" where
  "recorded [] = []"
| "recorded (LogInfo c # cs) = c # recorded cs"
| "recorded (_ # cs) = recorded cs"

text \<open>The schema ids for which \<^verbatim>\<open>warnings.warn\<close> was called so far.\<close>

fun warned :: "call list \<Rightarrow> string list" where
  "warned [] = []"
| "warned (Warn s # cs) = s # warned cs"
| "warned (_ # cs) = warned cs"

text \<open>Python's truth value of an optional string: \<^verbatim>\<open>None\<close> and \<^verbatim>\<open>""\<close> are false.\<close>

fun truthy :: "string option \<Rightarrow> bool" where
  "truthy None = False"
| "truthy (Some s) = (s \<noteq> [])"

subsection \<open>\<^verbatim>\<open>register_event_schema\<close>\<close>

text \<open>
  \<^verbatim>\<open>self.schemas.register\<close> is the parameter \<open>registry_register\<close>: given the registry
  and the schema source it raises, or returns the schema object and the registry with it.
\<close>

definition register_event_schema ::
  "(schema_registry \<Rightarrow> 'src \<Rightarrow> (event_schema \<times> schema_registry) result) \<Rightarrow> 'src
     \<Rightarrow> event_logger \<Rightarrow> unit result \<times> event_logger" where
  "register_event_schema registry_register schema st =
     (case registry_register (schemas st) schema of
        Raised e \<Rightarrow> (Raised e, st)
      | Returned (event_schema, reg) \<Rightarrow>
          let key = id' event_schema in
          (Returned (),
           st\<lparr>schemas := reg,
              modifiers := (modifiers st)(key \<mapsto> {}),
              modified_listeners := (modified_listeners st)(key \<mapsto> {}),
              unmodified_listeners := (unmodified_listeners st)(key \<mapsto> {})\<rparr>))"

subsection \<open>\<^verbatim>\<open>register_handler\<close> and \<^verbatim>\<open>remove_handler\<close>\<close>

text \<open>A handler is known by its identity. Both methods keep \<^verbatim>\<open>self.handlers\<close> in step
  with the handlers of \<^verbatim>\<open>self._logger\<close>.\<close>

definition register_handler :: "nat \<Rightarrow> event_logger \<Rightarrow> event_logger" where
  "register_handler handler st =
     (if handler \<in> set (handlers st) then st else st\<lparr>handlers := handlers st @ [handler]\<rparr>)"

definition remove_handler :: "nat \<Rightarrow> event_logger \<Rightarrow> event_logger" where
  "remove_handler handler st =
     (if handler \<in> set (handlers st) then st\<lparr>handlers := remove1 handler (handlers st)\<rparr> else st)"

subsection \<open>\<^verbatim>\<open>add_modifier\<close> and \<^verbatim>\<open>remove_modifier\<close>\<close>

text \<open>
  The loop \<^verbatim>\<open>for id in self._modifiers\<close> of \<^verbatim>\<open>add_modifier\<close> adds the modifier to the set
  of every key that passes the test; no lookup in it can fail.
\<close>

definition add_modifier ::
  "string option \<Rightarrow> pyobj \<Rightarrow> event_logger \<Rightarrow> unit result \<times> event_logger" where
  "add_modifier schema_id modifier st =
     (if \<not> callable modifier then (Raised TypeError, st)
      else if inspect_signature modifier = modifier_signature then
        (if truthy schema_id then
           (case modifiers st (the schema_id) of
              None \<Rightarrow> (Raised (KeyError schema_id), st)
            | Some s \<Rightarrow>
                (Returned (), st\<lparr>modifiers := (modifiers st)(the schema_id \<mapsto> insert modifier s)\<rparr>))
         else
           (Returned (),
            st\<lparr>modifiers :=
                 (\<lambda>i. if schema_id = None \<or> Some i = schema_id
                      then map_option (insert modifier) (modifiers st i)
                      else modifiers st i)\<rparr>))
      else (Raised ModifierError, st))"

text \<open>
  The loop of \<^verbatim>\<open>remove_modifier\<close> over \<^verbatim>\<open>self.schemas.schema_ids\<close>: a lookup of an id
  that has no entry raises, and what the loop removed before stays removed.
\<close>

fun remove_modifier_loop :: "pyobj \<Rightarrow> string list \<Rightarrow> table \<Rightarrow> unit result \<times> table" where
  "remove_modifier_loop modifier [] t = (Returned (), t)"
| "remove_modifier_loop modifier (i # ids) t =
     (case t i of
        None \<Rightarrow> (Raised (KeyError (Some i)), t)
      | Some s \<Rightarrow> remove_modifier_loop modifier ids (t(i \<mapsto> (s - {modifier}) - {modifier})))"

definition remove_modifier ::
  "string option \<Rightarrow> pyobj \<Rightarrow> event_logger \<Rightarrow> unit result \<times> event_logger" where
  "remove_modifier schema_id modifier st =
     (if truthy schema_id then
        (case modifiers st (the schema_id) of
           None \<Rightarrow> (Raised (KeyError schema_id), st)
         | Some s \<Rightarrow>
             (Returned (), st\<lparr>modifiers := (modifiers st)(the schema_id \<mapsto> s - {modifier})\<rparr>))
      else
        (case remove_modifier_loop modifier (schema_ids (schemas st)) (modifiers st) of
           (r, t) \<Rightarrow> (r, st\<lparr>modifiers := t\<rparr>)))"

subsection \<open>\<^verbatim>\<open>add_listener\<close> and \<^verbatim>\<open>remove_listener\<close>\<close>

text \<open>
  The loop of \<^verbatim>\<open>add_listener\<close> over \<^verbatim>\<open>self.schemas.schema_ids\<close>. Its \<^verbatim>\<open>else\<close> branch
  indexes \<^verbatim>\<open>self._unmodified_listeners\<close> with the parameter \<^verbatim>\<open>schema_id\<close>, not with
  the loop variable.
\<close>

fun add_listener_loop ::
  "bool \<Rightarrow> string option \<Rightarrow> pyobj \<Rightarrow> string list \<Rightarrow> event_logger
     \<Rightarrow> unit result \<times> event_logger" where
  "add_listener_loop modified schema_id listener [] st = (Returned (), st)"
| "add_listener_loop modified schema_id listener (i # ids) st =
     (if schema_id = None \<or> Some i = schema_id then
        (if modified then
           (case modified_listeners st i of
              None \<Rightarrow> (Raised (KeyError (Some i)), st)
            | Some s \<Rightarrow>
                add_listener_loop modified schema_id listener ids
                  (st\<lparr>modified_listeners := (modified_listeners st)(i \<mapsto> insert listener s)\<rparr>))
         else
           (case schema_id of
              None \<Rightarrow> (Raised (KeyError None), st)
            | Some k \<Rightarrow>
                (case unmodified_listeners st k of
                   None \<Rightarrow> (Raised (KeyError (Some k)), st)
                 | Some s \<Rightarrow>
                     add_listener_loop modified schema_id listener ids
                       (st\<lparr>unmodified_listeners :=
                            (unmodified_listeners st)(k \<mapsto> insert listener s)\<rparr>))))
      else add_listener_loop modified schema_id listener ids st)"

definition add_listener ::
  "bool \<Rightarrow> string option \<Rightarrow> pyobj \<Rightarrow> event_logger \<Rightarrow> unit result \<times> event_logger" where
  "add_listener modified schema_id listener st =
     (if \<not> callable listener then (Raised TypeError, st)
      else if inspect_signature listener = listener_signature then
        (if truthy schema_id then
           (if modified then
              (case modified_listeners st (the schema_id) of
                 None \<Rightarrow> (Raised (KeyError schema_id), st)
               | Some s \<Rightarrow>
                   (Returned (),
                    st\<lparr>modified_listeners :=
                         (modified_listeners st)(the schema_id \<mapsto> insert listener s)\<rparr>))
            else
              (case unmodified_listeners st (the schema_id) of
                 None \<Rightarrow> (Raised (KeyError schema_id), st)
               | Some s \<Rightarrow>
                   add_listener_loop modified schema_id listener (schema_ids (schemas st))
                     (st\<lparr>unmodified_listeners :=
                          (unmodified_listeners st)(the schema_id \<mapsto> insert listener s)\<rparr>)))
         else add_listener_loop modified schema_id listener (schema_ids (schemas st)) st)
      else (Raised ListenerError, st))"

text \<open>The two \<^verbatim>\<open>discard\<close> statements of \<^verbatim>\<open>remove_listener\<close> for one schema id.\<close>

definition discard_listener ::
  "pyobj \<Rightarrow> string \<Rightarrow> event_logger \<Rightarrow> unit result \<times> event_logger" where
  "discard_listener listener i st =
     (case modified_listeners st i of
        None \<Rightarrow> (Raised (KeyError (Some i)), st)
      | Some s \<Rightarrow>
          let st1 = st\<lparr>modified_listeners := (modified_listeners st)(i \<mapsto> s - {listener})\<rparr> in
          (case unmodified_listeners st1 i of
             None \<Rightarrow> (Raised (KeyError (Some i)), st1)
           | Some u \<Rightarrow>
               (Returned (),
                st1\<lparr>unmodified_listeners := (unmodified_listeners st1)(i \<mapsto> u - {listener})\<rparr>)))"

fun remove_listener_loop ::
  "pyobj \<Rightarrow> string list \<Rightarrow> event_logger \<Rightarrow> unit result \<times> event_logger" where
  "remove_listener_loop listener [] st = (Returned (), st)"
| "remove_listener_loop listener (i # ids) st =
     (case discard_listener listener i st of
        (Raised e, st1) \<Rightarrow> (Raised e, st1)
      | (Returned _, st1) \<Rightarrow> remove_listener_loop listener ids st1)"

definition remove_listener ::
  "string option \<Rightarrow> pyobj \<Rightarrow> event_logger \<Rightarrow> unit result \<times> event_logger" where
  "remove_listener schema_id listener st =
     (if truthy schema_id then discard_listener listener (the schema_id) st
      else remove_listener_loop listener (schema_ids (schemas st)) st)"

subsection \<open>\<^verbatim>\<open>emit\<close>\<close>

text \<open>
  What \<^verbatim>\<open>emit\<close> takes from outside the class: the order in which Python iterates over
  a set of callables, what a modifier does when called, the clock
  (\<^verbatim>\<open>datetime.utcnow()\<close>) and \<^verbatim>\<open>datetime.isoformat\<close>.

  A modifier has the contract \<^verbatim>\<open>Callable[[str, dict], dict]\<close>: it is given a
  dictionary, may change it in place, and returns a dictionary: the one it was given
  (\<open>Mutated d\<close>, \<open>d\<close> the content it leaves there) or a new one (\<open>Replaced d d'\<close>, \<open>d\<close>
  the content it leaves in the one it was given and \<open>d'\<close> the content of the new one).
  It reaches the caller's objects through its argument only. Nothing is assumed of the
  order \<open>set_iter\<close>: every theorem below holds for each order.

  \<^verbatim>\<open>emit\<close> is called where \<^verbatim>\<open>asyncio.create_task\<close> works, inside a running event
  loop; a task it creates does not run before \<^verbatim>\<open>emit\<close> returns.
\<close>

datatype mod_result = Mutated pydict | Replaced pydict pydict

record 't environment =
  set_iter :: "pyobj set \<Rightarrow> pyobj list"
  run_modifier :: "pyobj \<Rightarrow> string \<Rightarrow> pydict \<Rightarrow> mod_result"
  utcnow :: 't
  isoformat :: "'t \<Rightarrow> string"

text \<open>
  The test of the first \<^verbatim>\<open>if\<close> of \<^verbatim>\<open>emit\<close>, with Python's short-circuit \<^verbatim>\<open>and\<close>:
  \<^verbatim>\<open>not self.handlers and not self._modified_listeners[schema_id]
    and not self._unmodified_listeners[schema_id]\<close>.
  Indexing a dictionary with a key it does not have raises \<^verbatim>\<open>KeyError\<close>.
\<close>

definition no_handlers_or_listeners :: "event_logger \<Rightarrow> string \<Rightarrow> bool result" where
  "no_handlers_or_listeners st schema_id =
     (if handlers st \<noteq> [] then Returned False
      else
        (case modified_listeners st schema_id of
           None \<Rightarrow> Raised (KeyError (Some schema_id))
         | Some ml \<Rightarrow>
             if ml \<noteq> {} then Returned False
             else
               (case unmodified_listeners st schema_id of
                  None \<Rightarrow> Raised (KeyError (Some schema_id))
                | Some ul \<Rightarrow> Returned (ul = {}))))"

text \<open>
  The loop \<^verbatim>\<open>modified_data = modifier(schema_id=schema_id, data=modified_data)\<close>
  over the modifiers, from the dictionary at \<open>a\<close>.
\<close>

fun apply_modifiers ::
  "(pyobj \<Rightarrow> string \<Rightarrow> pydict \<Rightarrow> mod_result) \<Rightarrow> string \<Rightarrow> pyobj list \<Rightarrow> addr \<Rightarrow> store
     \<Rightarrow> addr \<times> store" where
  "apply_modifiers run schema_id [] a h = (a, h)"
| "apply_modifiers run schema_id (m # ms) a h =
     (case run m schema_id (h ! a) of
        Mutated d \<Rightarrow> apply_modifiers run schema_id ms a (h[a := d])
      | Replaced d d' \<Rightarrow> apply_modifiers run schema_id ms (length h) (h[a := d] @ [d']))"

text \<open>Lines 357 to 360: the deep copy and the modifiers of \<^verbatim>\<open>schema.id\<close>.\<close>

definition modify ::
  "'t environment \<Rightarrow> string \<Rightarrow> event_schema \<Rightarrow> addr \<Rightarrow> event_logger
     \<Rightarrow> addr result \<times> event_logger" where
  "modify env schema_id schema data st =
     (case deepcopy (heap st) data of
        (copy, h1) \<Rightarrow>
          (case modifiers st (id' schema) of
             None \<Rightarrow> (Raised (KeyError (Some (id' schema))), st\<lparr>heap := h1\<rparr>)
           | Some ms \<Rightarrow>
               (case apply_modifiers (run_modifier env) schema_id (set_iter env ms) copy h1 of
                  (modified_data, h2) \<Rightarrow> (Returned modified_data, st\<lparr>heap := h2\<rparr>))))"

text \<open>
  Modelled from the spec: \<^verbatim>\<open>self.schemas.validate_event(schema_id, data)\<close>, for the
  dictionary at \<open>a\<close>: the schema's \<^verbatim>\<open>validate(data)\<close> is ok or raises the validation
  error, and changes nothing.
\<close>

definition validate_event ::
  "string \<Rightarrow> addr \<Rightarrow> event_logger \<Rightarrow> unit result \<times> event_logger" where
  "validate_event schema_id a st =
     (let st1 = st\<lparr>calls := calls st @ [ValidateEvent schema_id a]\<rparr> in
      case get (schemas st) schema_id of
        None \<Rightarrow> (Raised (KeyError (Some schema_id)), st1)
      | Some schema \<Rightarrow>
          if validate schema (heap st ! a) then (Returned (), st1)
          else (Raised ValidationError, st1))"

text \<open>Lines 362 to 367: the original data when a listener of it exists, then the modified data.\<close>

definition validate_both ::
  "string \<Rightarrow> event_schema \<Rightarrow> addr \<Rightarrow> addr \<Rightarrow> event_logger \<Rightarrow> unit result \<times> event_logger" where
  "validate_both schema_id schema data modified_data st =
     (case unmodified_listeners st (id' schema) of
        None \<Rightarrow> (Raised (KeyError (Some (id' schema))), st)
      | Some ul \<Rightarrow>
          (case (if ul \<noteq> {} then validate_event schema_id data st else (Returned (), st)) of
             (Raised e, st1) \<Rightarrow> (Raised e, st1)
           | (Returned _, st1) \<Rightarrow> validate_event schema_id modified_data st1))"

text \<open>Lines 370 to 380: the capsule, then \<^verbatim>\<open>capsule.update(modified_data)\<close>.\<close>

definition reserved :: "'t environment \<Rightarrow> string \<Rightarrow> event_schema \<Rightarrow> 't option \<Rightarrow> pydict" where
  "reserved env schema_id schema timestamp_override =
     (let timestamp = (case timestamp_override of None \<Rightarrow> utcnow env | Some t \<Rightarrow> t) in
      [''__timestamp__'' \<mapsto> PStr (isoformat env timestamp @ ''Z''),
       ''__schema__'' \<mapsto> PStr schema_id,
       ''__schema_version__'' \<mapsto> version schema,
       ''__metadata_version__'' \<mapsto> PInt EVENTS_METADATA_VERSION])"

definition capsule ::
  "'t environment \<Rightarrow> string \<Rightarrow> event_schema \<Rightarrow> 't option \<Rightarrow> pydict \<Rightarrow> pydict" where
  "capsule env schema_id schema timestamp_override modified_data =
     reserved env schema_id schema timestamp_override ++ modified_data"

text \<open>
  Lines 394 to 426: one task for every listener of the modified data, then one for every
  listener of the original data, each added to \<^verbatim>\<open>self._active_listeners\<close>.
\<close>

definition schedule_listeners ::
  "'t environment \<Rightarrow> string \<Rightarrow> addr \<Rightarrow> addr \<Rightarrow> event_logger \<Rightarrow> unit result \<times> event_logger" where
  "schedule_listeners env schema_id data modified_data st =
     (case modified_listeners st schema_id of
        None \<Rightarrow> (Raised (KeyError (Some schema_id)), st)
      | Some ml \<Rightarrow>
          let st1 = st\<lparr>active_listeners := active_listeners st
                         @ map (\<lambda>listener. (listener, schema_id, modified_data)) (set_iter env ml)\<rparr> in
          (case unmodified_listeners st1 schema_id of
             None \<Rightarrow> (Raised (KeyError (Some schema_id)), st1)
           | Some ul \<Rightarrow>
               (Returned (),
                st1\<lparr>active_listeners := active_listeners st1
                       @ map (\<lambda>listener. (listener, schema_id, data)) (set_iter env ul)\<rparr>)))"

text \<open>\<^verbatim>\<open>emit\<close> from line 355 on, for the schema that \<^verbatim>\<open>self.schemas.get\<close> returned.\<close>

definition emit_registered ::
  "'t environment \<Rightarrow> string \<Rightarrow> event_schema \<Rightarrow> addr \<Rightarrow> 't option \<Rightarrow> event_logger
     \<Rightarrow> pydict option result \<times> event_logger" where
  "emit_registered env schema_id schema data timestamp_override st =
     (case modify env schema_id schema data st of
        (Raised e, st1) \<Rightarrow> (Raised e, st1)
      | (Returned modified_data, st1) \<Rightarrow>
          (case validate_both schema_id schema data modified_data st1 of
             (Raised e, st2) \<Rightarrow> (Raised e, st2)
           | (Returned _, st2) \<Rightarrow>
               let c = capsule env schema_id schema timestamp_override (heap st2 ! modified_data);
                   st3 = st2\<lparr>calls := calls st2 @ [LogInfo c]\<rparr> in
               (case schedule_listeners env schema_id data modified_data st3 of
                  (Raised e, st4) \<Rightarrow> (Raised e, st4)
                | (Returned _, st4) \<Rightarrow> (Returned (Some c), st4))))"

text \<open>
  \<^verbatim>\<open>emit\<close>: the first test, the check of the registry with its warning, then the rest.
  (\<^verbatim>\<open>self.schemas.get\<close> finds the schema of an id the registry contains.)
\<close>

definition emit ::
  "'t environment \<Rightarrow> string \<Rightarrow> addr \<Rightarrow> 't option \<Rightarrow> event_logger
     \<Rightarrow> pydict option result \<times> event_logger" where
  "emit env schema_id data timestamp_override st =
     (case no_handlers_or_listeners st schema_id of
        Raised e \<Rightarrow> (Raised e, st)
      | Returned True \<Rightarrow> (Returned None, st)
      | Returned False \<Rightarrow>
          if \<not> contains (schemas st) schema_id
          then (Returned None, st\<lparr>calls := calls st @ [Warn schema_id]\<rparr>)
          else
            (case get (schemas st) schema_id of
               None \<Rightarrow> (Raised (KeyError (Some schema_id)), st)
             | Some schema \<Rightarrow> emit_registered env schema_id schema data timestamp_override st))"

section \<open>Timestamps\<close>









section \<open>Registered schemas\<close>

text \<open>
  \<^verbatim>\<open>register_event_schema\<close> gives a schema id an entry in each of the three callback
  tables. A schema id is registered with the logger when the registry has it and the
  tables have its entries; a logger is consistent when that holds for every id of its
  registry, as it does when every schema came in through \<^verbatim>\<open>register_event_schema\<close>.
\<close>

definition has_tables :: "event_logger \<Rightarrow> string \<Rightarrow> bool" where
  "has_tables st i =
     (modifiers st i \<noteq> None \<and> modified_listeners st i \<noteq> None
        \<and> unmodified_listeners st i \<noteq> None)"

definition registered :: "event_logger \<Rightarrow> string \<Rightarrow> bool" where
  "registered st schema_id = (contains (schemas st) schema_id \<and> has_tables st schema_id)"

definition consistent :: "event_logger \<Rightarrow> bool" where
  "consistent st = list_all (has_tables st) (schema_ids (schemas st))"

text \<open>The three callback sets of one schema id, and membership in one of them.\<close>

definition tables_at ::
  "event_logger \<Rightarrow> string \<Rightarrow> pyobj set option \<times> pyobj set option \<times> pyobj set option" where
  "tables_at st i = (modifiers st i, modified_listeners st i, unmodified_listeners st i)"

definition in_table :: "table \<Rightarrow> string \<Rightarrow> pyobj \<Rightarrow> bool" where
  "in_table t i f = (case t i of None \<Rightarrow> False | Some s \<Rightarrow> f \<in> s)"

text \<open>
  The add operation for one schema id followed by the matching remove operation, with
  nothing in between.
\<close>

definition add_then_remove_modifier ::
  "string \<Rightarrow> pyobj \<Rightarrow> event_logger \<Rightarrow> unit result \<times> event_logger" where
  "add_then_remove_modifier schema_id modifier st =
     (case add_modifier (Some schema_id) modifier st of
        (Raised e, st1) \<Rightarrow> (Raised e, st1)
      | (Returned _, st1) \<Rightarrow> remove_modifier (Some schema_id) modifier st1)"

definition add_then_remove_listener ::
  "bool \<Rightarrow> string \<Rightarrow> pyobj \<Rightarrow> event_logger \<Rightarrow> unit result \<times> event_logger" where
  "add_then_remove_listener modified schema_id listener st =
     (case add_listener modified (Some schema_id) listener st of
        (Raised e, st1) \<Rightarrow> (Raised e, st1)
      | (Returned _, st1) \<Rightarrow> remove_listener (Some schema_id) listener st1)"



text \<open>The calls that a step from \<open>st\<close> to \<open>st'\<close> added.\<close>

definition new_calls :: "event_logger \<Rightarrow> event_logger \<Rightarrow> call list" where
  "new_calls st st' = drop (length (calls st)) (calls st')"

section \<open>A concrete logger\<close>

text \<open>
  The scenario of the spec: a schema \<open>S\<close> that requires the field \<open>x\<close> to be an
  integer, a modifier that sets \<open>x\<close> to 1, a listener, and three dictionaries of the
  caller: \<open>{x: "bad"}\<close> at address 0, \<open>{x: 1}\<close> at address 1 and
  \<open>{x: 1, __schema__: "evil"}\<close> at address 2. The registry of the scenario accepts
  every schema.
\<close>

definition schema_S :: event_schema where
  "schema_S =
     \<lparr>id' = ''S'', version = PInt 1,
      validate = (\<lambda>d. case d ''x'' of Some (PInt n) \<Rightarrow> True | _ \<Rightarrow> False)\<rparr>"

definition fix_x :: pyobj where
  "fix_x = Fn 1 modifier_signature"

definition listener_L :: pyobj where
  "listener_L = Fn 2 listener_signature"

definition env0 :: "nat environment" where
  "env0 =
     \<lparr>set_iter = (\<lambda>s. filter (\<lambda>f. f \<in> s) [fix_x, listener_L]),
      run_modifier = (\<lambda>m schema_id d. Mutated (d(''x'' \<mapsto> PInt 1))),
      utcnow = 0,
      isoformat = (\<lambda>t. if t = 0 then ''1970-01-01T00:00:00'' else ''2022-08-11T10:00:00'')\<rparr>"

definition accept_all :: "schema_registry \<Rightarrow> event_schema \<Rightarrow> bool" where
  "accept_all reg schema = True"

definition store0 :: store where
  "store0 =
     [[''x'' \<mapsto> PStr ''bad''],
      [''x'' \<mapsto> PInt 1],
      [''x'' \<mapsto> PInt 1, ''__schema__'' \<mapsto> PStr ''evil'']]"

definition logger_S :: event_logger where
  "logger_S = snd (register_event_schema (register accept_all) schema_S (new_logger store0))"

definition logger_SH :: event_logger where
  "logger_SH = register_handler 0 logger_S"

definition logger_SM :: event_logger where
  "logger_SM = snd (add_modifier (Some ''S'') fix_x logger_S)"

definition logger_SHM :: event_logger where
  "logger_SHM = snd (add_modifier (Some ''S'') fix_x logger_SH)"

definition logger_SHML :: event_logger where
  "logger_SHML = snd (add_listener False (Some ''S'') listener_L logger_SHM)"




section \<open>Lemmas on the registry and on the steps of \<^verbatim>\<open>emit\<close>\<close>

lemma get_id: "get reg k = Some s \<Longrightarrow> id' s = k"
  by (auto simp: get_def find_Some_iff)


lemma recorded_append: "recorded (cs @ ds) = recorded cs @ recorded ds"
  by (induction cs rule: recorded.induct) auto

lemma warned_append: "warned (cs @ ds) = warned cs @ warned ds"
  by (induction cs rule: warned.induct) auto

text \<open>The modifiers write to the dictionary they were given and to new ones only.\<close>

lemma apply_modifiers_frame:
  "apply_modifiers run sid ms a h = (a', h') \<Longrightarrow> b < length h \<Longrightarrow> b \<noteq> a \<Longrightarrow>
     h' ! b = h ! b \<and> length h \<le> length h'"
proof (induction ms arbitrary: a h)
  case Nil
  then show ?case by simp
next
  case (Cons m ms)
  show ?case
  proof (cases "run m sid (h ! a)")
    case (Mutated d)
    with Cons.prems have "apply_modifiers run sid ms a (h[a := d]) = (a', h')" by simp
    from Cons.IH[OF this] Cons.prems show ?thesis by simp
  next
    case (Replaced d d')
    with Cons.prems have "apply_modifiers run sid ms (length h) (h[a := d] @ [d']) = (a', h')"
      by simp
    from Cons.IH[OF this] Cons.prems show ?thesis by (simp add: nth_append)
  qed
qed

lemma apply_modifiers_fresh:
  "apply_modifiers run sid ms a h = (a', h') \<Longrightarrow> a' = a \<or> length h \<le> a'"
proof (induction ms arbitrary: a h)
  case Nil
  then show ?case by simp
next
  case (Cons m ms)
  show ?case
  proof (cases "run m sid (h ! a)")
    case (Mutated d)
    with Cons.prems have "apply_modifiers run sid ms a (h[a := d]) = (a', h')" by simp
    from Cons.IH[OF this] show ?thesis by simp
  next
    case (Replaced d d')
    with Cons.prems have "apply_modifiers run sid ms (length h) (h[a := d] @ [d']) = (a', h')"
      by simp
    from Cons.IH[OF this] show ?thesis by auto
  qed
qed

lemma modify_fields:
  "modify env sid schema data st = (r, st1) \<Longrightarrow> st1 = st\<lparr>heap := heap st1\<rparr>"
  by (auto simp: modify_def deepcopy_def split: option.splits prod.splits)

lemma modify_returns:
  "modifiers st (id' schema) \<noteq> None \<Longrightarrow>
     \<exists>md st1. modify env sid schema data st = (Returned md, st1)"
  by (auto simp: modify_def deepcopy_def split: option.splits prod.splits)

lemma modify_fresh:
  "modify env sid schema data st = (Returned md, st1) \<Longrightarrow> length (heap st) \<le> md"
  by (auto simp: modify_def deepcopy_def split: option.splits prod.splits
      dest!: apply_modifiers_fresh)

lemma modify_frame:
  "modify env sid schema data st = (r, st') \<Longrightarrow> data < length (heap st) \<Longrightarrow>
     heap st' ! data = heap st ! data \<and> calls st' = calls st \<and>
     active_listeners st' = active_listeners st"
  by (auto simp: modify_def deepcopy_def nth_append split: option.splits prod.splits
      dest!: apply_modifiers_frame[where b = data])

lemma validate_event_frame:
  "validate_event sid a st = (r, st') \<Longrightarrow>
     heap st' = heap st \<and> active_listeners st' = active_listeners st \<and>
     calls st' = calls st @ [ValidateEvent sid a]"
  by (auto simp: validate_event_def Let_def split: option.splits if_splits)

lemma validate_event_eq:
  "get (schemas st) sid = Some schema \<Longrightarrow>
   validate_event sid a st =
     (if validate schema (heap st ! a) then Returned () else Raised ValidationError,
      st\<lparr>calls := calls st @ [ValidateEvent sid a]\<rparr>)"
  by (simp add: validate_event_def Let_def)

lemma validate_both_frame:
  "validate_both sid schema data md st = (r, st') \<Longrightarrow>
     heap st' = heap st \<and> active_listeners st' = active_listeners st \<and>
     recorded (calls st') = recorded (calls st) \<and> warned (calls st') = warned (calls st)"
  by (auto simp: validate_both_def recorded_append warned_append
      split: option.splits if_splits prod.splits result.splits
      dest!: validate_event_frame)

lemma schedule_listeners_frame:
  "schedule_listeners env sid data md st = (r, st') \<Longrightarrow>
     heap st' = heap st \<and> calls st' = calls st"
  by (auto simp: schedule_listeners_def Let_def split: option.splits)

lemma emit_registered_heap:
  "emit_registered env sid schema data ts st = (r, st') \<Longrightarrow> data < length (heap st) \<Longrightarrow>
     heap st' ! data = heap st ! data"
  by (auto simp: emit_registered_def Let_def split: prod.splits result.splits
      dest!: modify_frame validate_both_frame schedule_listeners_frame)

text \<open>
  What \<^verbatim>\<open>emit\<close> does for a registered schema once the first test has let it through.
\<close>

lemma emit_proceeds:
  assumes reg: "registered st sid"
    and sch: "get (schemas st) sid = Some schema"
    and go: "no_handlers_or_listeners st sid = Returned False"
    and md: "modify env sid schema data st = (Returned md, st1)"
    and ml: "modified_listeners st sid = Some ml"
    and ul: "unmodified_listeners st sid = Some ul"
  shows "emit env sid data ts st =
     (if ul \<noteq> {} \<and> \<not> validate schema (heap st1 ! data)
      then (Raised ValidationError, st1\<lparr>calls := calls st @ [ValidateEvent sid data]\<rparr>)
      else if \<not> validate schema (heap st1 ! md)
      then (Raised ValidationError,
            st1\<lparr>calls := calls st @ (if ul \<noteq> {} then [ValidateEvent sid data] else [])
                     @ [ValidateEvent sid md]\<rparr>)
      else (Returned (Some (capsule env sid schema ts (heap st1 ! md))),
            st1\<lparr>calls := calls st @ (if ul \<noteq> {} then [ValidateEvent sid data] else [])
                     @ [ValidateEvent sid md, LogInfo (capsule env sid schema ts (heap st1 ! md))],
                active_listeners := active_listeners st
                     @ map (\<lambda>listener. (listener, sid, md)) (set_iter env ml)
                     @ map (\<lambda>listener. (listener, sid, data)) (set_iter env ul)\<rparr>))"
proof -
  have i: "id' schema = sid" using sch by (rule get_id)
  have c: "contains (schemas st) sid" using reg by (simp add: registered_def)
  obtain h where st1: "st1 = st\<lparr>heap := h\<rparr>" using modify_fields[OF md] by blast
  have e: "emit env sid data ts st = emit_registered env sid schema data ts st"
    by (simp add: emit_def go c sch)
  show ?thesis
    unfolding e emit_registered_def md st1
    by (simp add: validate_both_def i ul ml validate_event_eq sch schedule_listeners_def Let_def)
qed

lemma registered_sets:
  "registered st sid \<Longrightarrow>
     \<exists>ms ml ul. modifiers st sid = Some ms \<and> modified_listeners st sid = Some ml
       \<and> unmodified_listeners st sid = Some ul"
  by (auto simp: registered_def has_tables_def)







text \<open>The early exits of \<^verbatim>\<open>emit\<close>.\<close>

lemma emit_unregistered_never_records:
  assumes "\<not> contains (schemas st) schema_id"
    and "emit env schema_id data timestamp_override st = (r, st')"
  shows "recorded (calls st') = recorded (calls st) \<and> active_listeners st' = active_listeners st
     \<and> heap st' = heap st"
  using assms
  by (auto simp: emit_def recorded_append split: result.splits bool.splits)

lemma emit_fast_exit:
  assumes "handlers st = []"
    and "modified_listeners st schema_id = Some {}"
    and "unmodified_listeners st schema_id = Some {}"
  shows "emit env schema_id data timestamp_override st = (Returned None, st)"
  using assms by (simp add: emit_def no_handlers_or_listeners_def)

lemma emit_no_entry_raises:
  assumes "handlers st = []"
    and "modified_listeners st schema_id = None"
  shows "emit env schema_id data timestamp_override st = (Raised (KeyError (Some schema_id)), st)"
  using assms by (simp add: emit_def no_handlers_or_listeners_def)

section \<open>Lemmas on the callback tables\<close>

lemma new_logger_consistent: "consistent (new_logger h)"
  by (simp add: consistent_def new_logger_def schema_ids_def)

lemma register_event_schema_registered:
  assumes "accepts (schemas st) schema"
  shows "registered (snd (register_event_schema (register accepts) schema st)) (id' schema)"
  using assms
  by (simp add: register_event_schema_def register_def registered_def has_tables_def
      contains_def schema_ids_def Let_def)

lemma register_event_schema_consistent:
  assumes "consistent st"
  shows "consistent (snd (register_event_schema (register accepts) schema st))"
  using assms
  by (auto simp: register_event_schema_def register_def consistent_def has_tables_def
      schema_ids_def list_all_iff Let_def)

lemma consistent_update:
  "consistent st \<Longrightarrow> schemas st' = schemas st \<Longrightarrow>
     (\<And>i. has_tables st i \<Longrightarrow> has_tables st' i) \<Longrightarrow> consistent st'"
  by (simp add: consistent_def list_all_iff)

text \<open>What the loops over the schema ids compute when every lookup succeeds.\<close>

lemma remove_modifier_loop_eq:
  "list_all (\<lambda>i. t i \<noteq> None) ids \<Longrightarrow>
   remove_modifier_loop f ids t =
     (Returned (), \<lambda>k. if k \<in> set ids then map_option (\<lambda>s. s - {f}) (t k) else t k)"
proof (induction ids arbitrary: t)
  case Nil
  then show ?case by simp
next
  case (Cons i ids)
  from Cons.prems obtain s where s: "t i = Some s" by auto
  let ?t = "t(i \<mapsto> s - {f})"
  have step: "remove_modifier_loop f (i # ids) t = remove_modifier_loop f ids ?t"
    by (simp add: s)
  have "list_all (\<lambda>i. ?t i \<noteq> None) ids" using Cons.prems by (simp add: list_all_iff)
  from Cons.IH[OF this]
  have ih: "remove_modifier_loop f ids ?t =
     (Returned (), \<lambda>k. if k \<in> set ids then map_option (\<lambda>s. s - {f}) (?t k) else ?t k)" .
  have "(\<lambda>k. if k \<in> set ids then map_option (\<lambda>s. s - {f}) (?t k) else ?t k) =
        (\<lambda>k. if k \<in> set (i # ids) then map_option (\<lambda>s. s - {f}) (t k) else t k)"
    by (auto simp: fun_eq_iff s)
  with step ih show ?case by simp
qed

lemma add_listener_loop_unmodified:
  "unmodified_listeners st k = Some s \<Longrightarrow>
   add_listener_loop False (Some k) l ids st =
     (Returned (),
      if k \<in> set ids
      then st\<lparr>unmodified_listeners := (unmodified_listeners st)(k \<mapsto> insert l s)\<rparr> else st)"
proof (induction ids arbitrary: st s)
  case Nil
  then show ?case by simp
next
  case (Cons i ids)
  show ?case
  proof (cases "i = k")
    case True
    let ?st = "st\<lparr>unmodified_listeners := (unmodified_listeners st)(k \<mapsto> insert l s)\<rparr>"
    have "unmodified_listeners ?st k = Some (insert l s)" by simp
    from Cons.IH[OF this] show ?thesis using True Cons.prems by simp
  next
    case False
    with Cons.IH[OF Cons.prems] show ?thesis by simp
  qed
qed

lemma add_listener_loop_modified:
  "modified_listeners st k = Some s \<Longrightarrow>
   add_listener_loop True (Some k) l ids st =
     (Returned (),
      if k \<in> set ids
      then st\<lparr>modified_listeners := (modified_listeners st)(k \<mapsto> insert l s)\<rparr> else st)"
proof (induction ids arbitrary: st s)
  case Nil
  then show ?case by simp
next
  case (Cons i ids)
  show ?case
  proof (cases "i = k")
    case True
    let ?st = "st\<lparr>modified_listeners := (modified_listeners st)(k \<mapsto> insert l s)\<rparr>"
    have "modified_listeners ?st k = Some (insert l s)" by simp
    from Cons.IH[OF this] show ?thesis using True Cons.prems by simp
  next
    case False
    with Cons.IH[OF Cons.prems] show ?thesis by simp
  qed
qed

lemma remove_listener_loop_eq:
  "list_all (\<lambda>i. modified_listeners st i \<noteq> None \<and> unmodified_listeners st i \<noteq> None) ids \<Longrightarrow>
   remove_listener_loop l ids st =
     (Returned (),
      st\<lparr>modified_listeners :=
            (\<lambda>k. if k \<in> set ids then map_option (\<lambda>s. s - {l}) (modified_listeners st k)
                 else modified_listeners st k),
         unmodified_listeners :=
            (\<lambda>k. if k \<in> set ids then map_option (\<lambda>s. s - {l}) (unmodified_listeners st k)
                 else unmodified_listeners st k)\<rparr>)"
proof (induction ids arbitrary: st)
  case Nil
  then show ?case by simp
next
  case (Cons i ids)
  from Cons.prems obtain s u where s: "modified_listeners st i = Some s"
    and u: "unmodified_listeners st i = Some u" by auto
  let ?st = "st\<lparr>modified_listeners := (modified_listeners st)(i \<mapsto> s - {l}),
                 unmodified_listeners := (unmodified_listeners st)(i \<mapsto> u - {l})\<rparr>"
  have d: "discard_listener l i st = (Returned (), ?st)"
    by (simp add: discard_listener_def s u Let_def)
  have "list_all (\<lambda>i. modified_listeners ?st i \<noteq> None \<and> unmodified_listeners ?st i \<noteq> None) ids"
    using Cons.prems by (simp add: list_all_iff)
  from Cons.IH[OF this]
  have ih: "remove_listener_loop l ids ?st =
     (Returned (),
      ?st\<lparr>modified_listeners :=
            (\<lambda>k. if k \<in> set ids then map_option (\<lambda>s. s - {l}) (modified_listeners ?st k)
                 else modified_listeners ?st k),
         unmodified_listeners :=
            (\<lambda>k. if k \<in> set ids then map_option (\<lambda>s. s - {l}) (unmodified_listeners ?st k)
                 else unmodified_listeners ?st k)\<rparr>)" .
  have m: "(\<lambda>k. if k \<in> set ids then map_option (\<lambda>s. s - {l}) (modified_listeners ?st k)
                 else modified_listeners ?st k) =
        (\<lambda>k. if k \<in> set (i # ids) then map_option (\<lambda>s. s - {l}) (modified_listeners st k)
                 else modified_listeners st k)"
    by (auto simp: fun_eq_iff s)
  have n: "(\<lambda>k. if k \<in> set ids then map_option (\<lambda>s. s - {l}) (unmodified_listeners ?st k)
                 else unmodified_listeners ?st k) =
        (\<lambda>k. if k \<in> set (i # ids) then map_option (\<lambda>s. s - {l}) (unmodified_listeners st k)
                 else unmodified_listeners st k)"
    by (auto simp: fun_eq_iff u)
  have "remove_listener_loop l (i # ids) st = remove_listener_loop l ids ?st"
    by (simp add: d)
  then show ?case unfolding ih m n by simp
qed

text \<open>Adding and removing for one schema id.\<close>

lemma add_modifier_at:
  assumes "callable f" "inspect_signature f = modifier_signature" "modifiers st sid = Some s"
  shows "add_modifier (Some sid) f st =
           (Returned (), st\<lparr>modifiers := (modifiers st)(sid \<mapsto> insert f s)\<rparr>)"
proof (cases "sid = []")
  case True
  have "(\<lambda>i. if Some i = Some sid then map_option (insert f) (modifiers st i) else modifiers st i)
      = (modifiers st)(sid \<mapsto> insert f s)"
    by (auto simp: fun_eq_iff assms(3))
  with assms True show ?thesis by (simp add: add_modifier_def)
next
  case False
  with assms show ?thesis by (simp add: add_modifier_def)
qed

lemma add_listener_at_modified:
  assumes "callable l" "inspect_signature l = listener_signature"
    and "modified_listeners st sid = Some s" "contains (schemas st) sid"
  shows "add_listener True (Some sid) l st =
           (Returned (), st\<lparr>modified_listeners := (modified_listeners st)(sid \<mapsto> insert l s)\<rparr>)"
proof (cases "sid = []")
  case True
  with assms show ?thesis
    by (simp add: add_listener_def add_listener_loop_modified contains_def)
next
  case False
  with assms show ?thesis by (simp add: add_listener_def)
qed

lemma add_listener_at_unmodified:
  assumes "callable l" "inspect_signature l = listener_signature"
    and "unmodified_listeners st sid = Some u" "contains (schemas st) sid"
  shows "add_listener False (Some sid) l st =
           (Returned (), st\<lparr>unmodified_listeners := (unmodified_listeners st)(sid \<mapsto> insert l u)\<rparr>)"
proof (cases "sid = []")
  case True
  with assms show ?thesis
    by (simp add: add_listener_def add_listener_loop_unmodified contains_def)
next
  case False
  let ?st = "st\<lparr>unmodified_listeners := (unmodified_listeners st)(sid \<mapsto> insert l u)\<rparr>"
  have "unmodified_listeners ?st sid = Some (insert l u)" by simp
  from add_listener_loop_unmodified[OF this, of l "schema_ids (schemas st)"] assms False
  show ?thesis by (simp add: add_listener_def contains_def)
qed

lemma remove_modifier_at:
  assumes "sid = [] \<longrightarrow> consistent st" "contains (schemas st) sid" "modifiers st sid = Some s"
  shows "\<exists>st2. remove_modifier (Some sid) f st = (Returned (), st2)
     \<and> tables_at st2 sid = (Some (s - {f}), modified_listeners st sid, unmodified_listeners st sid)"
proof (cases "sid = []")
  case True
  with assms(1) have "consistent st" by simp
  then have "list_all (\<lambda>i. modifiers st i \<noteq> None) (schema_ids (schemas st))"
    by (simp add: consistent_def has_tables_def list_all_iff)
  from remove_modifier_loop_eq[OF this, of f] True assms(2,3)
  show ?thesis by (simp add: remove_modifier_def tables_at_def contains_def)
next
  case False
  with assms show ?thesis by (simp add: remove_modifier_def tables_at_def)
qed

lemma remove_listener_at:
  assumes "sid = [] \<longrightarrow> consistent st" "contains (schemas st) sid"
    and "modified_listeners st sid = Some s" "unmodified_listeners st sid = Some u"
  shows "\<exists>st2. remove_listener (Some sid) l st = (Returned (), st2)
     \<and> tables_at st2 sid = (modifiers st sid, Some (s - {l}), Some (u - {l}))"
proof (cases "sid = []")
  case True
  with assms(1) have "consistent st" by simp
  then have "list_all (\<lambda>i. modified_listeners st i \<noteq> None \<and> unmodified_listeners st i \<noteq> None)
          (schema_ids (schemas st))"
    by (simp add: consistent_def has_tables_def list_all_iff)
  from remove_listener_loop_eq[OF this, of l] True assms(2-4)
  show ?thesis by (simp add: remove_listener_def tables_at_def contains_def)
next
  case False
  with assms show ?thesis
    by (simp add: remove_listener_def discard_listener_def tables_at_def Let_def)
qed

text \<open>With \<^verbatim>\<open>modified=False\<close> and no schema id, the loop of \<^verbatim>\<open>add_listener\<close> fails at the
  first schema id.\<close>

lemma add_listener_unmodified_all_raises:
  assumes "callable listener" "inspect_signature listener = listener_signature"
    and "schemas st \<noteq> []"
  shows "add_listener False None listener st = (Raised (KeyError None), st)"
proof -
  from assms(3) obtain i ids where "schema_ids (schemas st) = i # ids"
    by (cases "schemas st") (auto simp: schema_ids_def)
  with assms(1,2) show ?thesis by (simp add: add_listener_def)
qed

section \<open>Lemmas on timestamps\<close>






section \<open>The concrete logger, evaluated\<close>

lemma logger_S_eq:
  "logger_S = \<lparr>handlers = [], schemas = [schema_S], modifiers = [''S'' \<mapsto> {}],
      modified_listeners = [''S'' \<mapsto> {}], unmodified_listeners = [''S'' \<mapsto> {}],
      active_listeners = [], heap = store0, calls = []\<rparr>"
  by (simp add: Let_def logger_S_def register_event_schema_def register_def accept_all_def
      new_logger_def schema_S_def)

lemma logger_SH_eq:
  "logger_SH = \<lparr>handlers = [0], schemas = [schema_S], modifiers = [''S'' \<mapsto> {}],
      modified_listeners = [''S'' \<mapsto> {}], unmodified_listeners = [''S'' \<mapsto> {}],
      active_listeners = [], heap = store0, calls = []\<rparr>"
  by (simp add: logger_SH_def logger_S_eq register_handler_def)

lemma logger_SM_eq:
  "logger_SM = \<lparr>handlers = [], schemas = [schema_S], modifiers = [''S'' \<mapsto> {fix_x}],
      modified_listeners = [''S'' \<mapsto> {}], unmodified_listeners = [''S'' \<mapsto> {}],
      active_listeners = [], heap = store0, calls = []\<rparr>"
  by (simp add: logger_SM_def logger_S_eq add_modifier_def fix_x_def)

lemma logger_SHM_eq:
  "logger_SHM = \<lparr>handlers = [0], schemas = [schema_S], modifiers = [''S'' \<mapsto> {fix_x}],
      modified_listeners = [''S'' \<mapsto> {}], unmodified_listeners = [''S'' \<mapsto> {}],
      active_listeners = [], heap = store0, calls = []\<rparr>"
  by (simp add: logger_SHM_def logger_SH_eq add_modifier_def fix_x_def)

lemma logger_SHML_eq:
  "logger_SHML = \<lparr>handlers = [0], schemas = [schema_S], modifiers = [''S'' \<mapsto> {fix_x}],
      modified_listeners = [''S'' \<mapsto> {}], unmodified_listeners = [''S'' \<mapsto> {listener_L}],
      active_listeners = [], heap = store0, calls = []\<rparr>"
  by (simp add: logger_SHML_def logger_SHM_eq add_listener_def listener_L_def schema_ids_def
      schema_S_def)

lemma get_S: "get [schema_S] ''S'' = Some schema_S"
  by (simp add: get_def schema_S_def)

lemma schemas_S:
  "schemas logger_S = [schema_S]" "schemas logger_SH = [schema_S]" "schemas logger_SM = [schema_S]"
  "schemas logger_SHM = [schema_S]" "schemas logger_SHML = [schema_S]"
  by (simp_all add: logger_S_eq logger_SH_eq logger_SM_eq logger_SHM_eq logger_SHML_eq)

lemma registered_S:
  "registered logger_S ''S''" "registered logger_SH ''S''" "registered logger_SM ''S''"
  "registered logger_SHM ''S''" "registered logger_SHML ''S''"
  by (simp_all add: registered_def has_tables_def contains_def schema_ids_def logger_S_eq
      logger_SH_eq logger_SM_eq logger_SHM_eq logger_SHML_eq schema_S_def)

lemmas eval_defs =
  Let_def emit_def emit_registered_def no_handlers_or_listeners_def contains_def get_def
  modify_def deepcopy_def validate_both_def validate_event_def capsule_def reserved_def
  schedule_listeners_def EVENTS_METADATA_VERSION_def schema_S_def env0_def store0_def
  schema_ids_def fix_x_def listener_L_def modifier_signature_def listener_signature_def

lemma modify_SH_0:
  "modify env0 ''S'' schema_S 0 logger_SH =
     (Returned 3, logger_SH\<lparr>heap := store0 @ [[''x'' \<mapsto> PStr ''bad'']]\<rparr>)"
  by (simp add: modify_def deepcopy_def logger_SH_eq schema_S_def env0_def store0_def)

lemma modify_SM_0:
  "modify env0 ''S'' schema_S 0 logger_SM =
     (Returned 3, logger_SM\<lparr>heap := store0 @ [[''x'' \<mapsto> PInt 1]]\<rparr>)"
  by (simp add: modify_def deepcopy_def logger_SM_eq schema_S_def env0_def store0_def)

lemma modify_SHM_0:
  "modify env0 ''S'' schema_S 0 logger_SHM =
     (Returned 3, logger_SHM\<lparr>heap := store0 @ [[''x'' \<mapsto> PInt 1]]\<rparr>)"
  by (simp add: modify_def deepcopy_def logger_SHM_eq schema_S_def env0_def store0_def)

lemma modify_SHML_0:
  "modify env0 ''S'' schema_S 0 logger_SHML =
     (Returned 3, logger_SHML\<lparr>heap := store0 @ [[''x'' \<mapsto> PInt 1]]\<rparr>)"
  by (simp add: modify_def deepcopy_def logger_SHML_eq schema_S_def env0_def store0_def)

lemma emit_pair:
  "emit env sid data ts st = (fst (emit env sid data ts st), snd (emit env sid data ts st))"
  by simp




section \<open>The claims\<close>

subsection \<open>Emitting for a schema id the registry does not have\<close>

text \<open>
  When the first test of \<^verbatim>\<open>emit\<close> lets the call through (a handler is configured, or
  the id has a listener in the tables), \<^verbatim>\<open>emit\<close> for a schema id that the registry does
  not have issues the \<^verbatim>\<open>SchemaNotRegistered\<close> warning and returns \<^verbatim>\<open>None\<close>; the
  warning is the only thing that happens.
\<close>

lemma emit_unregistered_warns:
  assumes "\<not> contains (schemas st) schema_id"
    and "no_handlers_or_listeners st schema_id = Returned False"
  shows "emit env schema_id data timestamp_override st =
           (Returned None, st\<lparr>calls := calls st @ [Warn schema_id]\<rparr>)"
  using assms by (simp add: emit_def)

lemma emit_unregistered_warns_with_handler:
  "emit env0 ''T'' 0 None logger_SH = (Returned None, logger_SH\<lparr>calls := [Warn ''T'']\<rparr>)"
proof -
  have a: "\<not> contains (schemas logger_SH) ''T''"
    by (simp add: contains_def schema_ids_def logger_SH_eq schema_S_def)
  have b: "no_handlers_or_listeners logger_SH ''T'' = Returned False"
    by (simp add: no_handlers_or_listeners_def logger_SH_eq)
  from emit_unregistered_warns[OF a b, of env0 0 None] show ?thesis by (simp add: logger_SH_eq)
qed

text \<open>
  C1. The claim: for every schema id that is not registered and every data,
  \<^verbatim>\<open>emit\<close> never raises and never records; it issues the \<^verbatim>\<open>SchemaNotRegistered\<close>
  warning and returns \<^verbatim>\<open>None\<close>, whether or not handlers or listeners are configured.
  The code: on a logger with the schema \<open>S\<close> registered and no handler, \<^verbatim>\<open>emit\<close> for
  the unregistered id \<open>T\<close> raises \<^verbatim>\<open>KeyError\<close> in its first test, before the check of
  the registry, and issues no warning.
\<close>

theorem emit_unregistered_raises_without_handlers:
  "\<not> contains (schemas logger_S) ''T''
   \<and> emit env0 ''T'' 0 None logger_S = (Raised (KeyError (Some ''T'')), logger_S)"
  by (simp add: contains_def schema_ids_def emit_def no_handlers_or_listeners_def logger_S_eq
      schema_S_def)

subsection \<open>Adding a listener of the original data for every schema\<close>

text \<open>
  C2. The claim: \<^verbatim>\<open>add_listener\<close> with \<^verbatim>\<open>modified=False\<close>, no schema id and a listener of
  the required signature adds the listener to the set of every registered schema id and
  does not raise. The code: with the schema \<open>S\<close> registered, the call raises
  \<^verbatim>\<open>KeyError(None)\<close> and adds nothing.
\<close>

theorem add_listener_unmodified_all_schemas_raises:
  "add_listener False None listener_L logger_S = (Raised (KeyError None), logger_S)"
  by (simp add: add_listener_def listener_L_def logger_S_eq schema_ids_def)

subsection \<open>Validation before recording\<close>

text \<open>
  C3. For a schema registered with the logger and every call of \<^verbatim>\<open>emit\<close>, where
  \<open>modified_data\<close> is the dictionary the modifiers produce from a deep copy of the
  data (in the store \<open>st1\<close>): whenever the call records an envelope or schedules a
  listener, the modified data is valid and its validation is the call just before the
  recording; and when \<^verbatim>\<open>emit\<close> gets as far as validating (its first test lets the call
  through) and the modified data is not valid, it raises the validation error, hands no
  envelope to \<^verbatim>\<open>self._logger\<close> and schedules no listener.
\<close>

theorem emit_validates_before_recording:
  assumes reg: "registered st schema_id"
    and sch: "get (schemas st) schema_id = Some schema"
    and md: "modify env schema_id schema data st = (Returned modified_data, st1)"
    and em: "emit env schema_id data timestamp_override st = (r, st')"
  shows "(recorded (calls st') \<noteq> recorded (calls st) \<or> active_listeners st' \<noteq> active_listeners st
            \<longrightarrow> validate schema (heap st1 ! modified_data)
              \<and> (\<exists>pre c. calls st' = pre @ [ValidateEvent schema_id modified_data, LogInfo c]
                    \<and> recorded pre = recorded (calls st)))
       \<and> (no_handlers_or_listeners st schema_id = Returned False
            \<and> \<not> validate schema (heap st1 ! modified_data)
            \<longrightarrow> r = Raised ValidationError \<and> recorded (calls st') = recorded (calls st)
              \<and> active_listeners st' = active_listeners st)"
proof -
  from registered_sets[OF reg] obtain ml ul where ml: "modified_listeners st schema_id = Some ml"
    and ul: "unmodified_listeners st schema_id = Some ul" by blast
  have st1: "st1 = st\<lparr>heap := heap st1\<rparr>" using md by (rule modify_fields)
  have a1: "active_listeners st1 = active_listeners st" by (subst st1) simp
  show ?thesis
  proof (cases "no_handlers_or_listeners st schema_id = Returned False")
    case True
    show ?thesis
      using em unfolding emit_proceeds[OF reg sch True md ml ul]
      by (auto simp: recorded_append a1 split: if_splits)
  next
    case False
    with em have "recorded (calls st') = recorded (calls st)
        \<and> active_listeners st' = active_listeners st"
      by (auto simp: emit_def ml ul no_handlers_or_listeners_def
          split: result.splits bool.splits if_splits)
    with False show ?thesis by simp
  qed
qed

theorem emit_validates_before_recording_witness:
  "fst (emit env0 ''S'' 0 None logger_SH) = Raised ValidationError
   \<and> recorded (calls (snd (emit env0 ''S'' 0 None logger_SH))) = []
   \<and> active_listeners (snd (emit env0 ''S'' 0 None logger_SH)) = []
   \<and> recorded (calls (snd (emit env0 ''S'' 0 None logger_SHM))) \<noteq> []
   \<and> validate schema_S [''x'' \<mapsto> PInt 1]"
proof -
  have g: "get (schemas logger_SH) ''S'' = Some schema_S" by (simp add: schemas_S get_S)
  have go: "no_handlers_or_listeners logger_SH ''S'' = Returned False"
    by (simp add: no_handlers_or_listeners_def logger_SH_eq)
  have bad: "\<not> validate schema_S
      (heap (logger_SH\<lparr>heap := store0 @ [[''x'' \<mapsto> PStr ''bad'']]\<rparr>) ! 3)"
    by (simp add: store0_def schema_S_def)
  from emit_validates_before_recording[OF registered_S(2) g modify_SH_0 emit_pair] go bad
  have a: "fst (emit env0 ''S'' 0 None logger_SH) = Raised ValidationError
      \<and> recorded (calls (snd (emit env0 ''S'' 0 None logger_SH))) = recorded (calls logger_SH)
      \<and> active_listeners (snd (emit env0 ''S'' 0 None logger_SH)) = active_listeners logger_SH"
    by blast
  have g': "get (schemas logger_SHM) ''S'' = Some schema_S" by (simp add: schemas_S get_S)
  have rec: "recorded (calls (snd (emit env0 ''S'' 0 None logger_SHM)))
      \<noteq> recorded (calls logger_SHM)"
    by (simp add: eval_defs logger_SHM_eq)
  from emit_validates_before_recording[OF registered_S(4) g' modify_SHM_0 emit_pair] rec
  have "validate schema_S (heap (logger_SHM\<lparr>heap := store0 @ [[''x'' \<mapsto> PInt 1]]\<rparr>) ! 3)"
    by blast
  then have b: "validate schema_S [''x'' \<mapsto> PInt 1]" by (simp add: store0_def)
  from a b rec show ?thesis by (simp add: logger_SH_eq logger_SHM_eq)
qed

subsection \<open>Validation of the original data\<close>

text \<open>
  C4, as amended. During \<^verbatim>\<open>emit\<close> for a schema registered with the logger, on a
  dictionary of the caller, the original data is validated (one of the calls that
  \<^verbatim>\<open>emit\<close> makes is \<^verbatim>\<open>validate_event\<close> on the caller's dictionary) if and only if a
  listener of the original data is registered for the schema. An emit whose original data
  is invalid and whose modified data is valid fails with the validation error, recording
  nothing, when such a listener is registered; when none is registered and the first test
  of \<^verbatim>\<open>emit\<close> lets the call through (a handler or a listener of the modified data is
  there), it returns the envelope and records it.
\<close>

theorem emit_validates_original_iff_listener:
  assumes reg: "registered st schema_id"
    and sch: "get (schemas st) schema_id = Some schema"
    and md: "modify env schema_id schema data st = (Returned modified_data, st1)"
    and em: "emit env schema_id data timestamp_override st = (r, st')"
    and alloc: "data < length (heap st)"
  shows "(ValidateEvent schema_id data \<in> set (new_calls st st')
            \<longleftrightarrow> unmodified_listeners st schema_id \<noteq> Some {})
       \<and> (\<not> validate schema (heap st ! data) \<and> validate schema (heap st1 ! modified_data) \<longrightarrow>
            (unmodified_listeners st schema_id \<noteq> Some {} \<longrightarrow>
               r = Raised ValidationError \<and> recorded (calls st') = recorded (calls st)
               \<and> active_listeners st' = active_listeners st)
          \<and> (unmodified_listeners st schema_id = Some {}
               \<and> no_handlers_or_listeners st schema_id = Returned False \<longrightarrow>
               (\<exists>c. r = Returned (Some c) \<and> recorded (calls st') = recorded (calls st) @ [c])))"
proof -
  from registered_sets[OF reg] obtain ml ul where ml: "modified_listeners st schema_id = Some ml"
    and ul: "unmodified_listeners st schema_id = Some ul" by blast
  have st1: "st1 = st\<lparr>heap := heap st1\<rparr>" using md by (rule modify_fields)
  have a1: "active_listeners st1 = active_listeners st" by (subst st1) simp
  have d: "heap st1 ! data = heap st ! data" using modify_frame[OF md alloc] by simp
  have n: "modified_data \<noteq> data" using modify_fresh[OF md] alloc by simp
  show ?thesis
  proof (cases "no_handlers_or_listeners st schema_id = Returned False")
    case True
    show ?thesis
      using em n unfolding emit_proceeds[OF reg sch True md ml ul] d new_calls_def
      by (auto simp: recorded_append a1 ul split: if_splits)
  next
    case False
    then have t: "no_handlers_or_listeners st schema_id = Returned True" and e: "ul = {}"
      by (auto simp: no_handlers_or_listeners_def ml ul split: if_splits)
    from em have "calls st' = calls st" by (simp add: emit_def t)
    with e False show ?thesis by (simp add: ul new_calls_def)
  qed
qed

theorem emit_validates_original_iff_listener_witness:
  "fst (emit env0 ''S'' 0 None logger_SHML) = Raised ValidationError
   \<and> recorded (calls (snd (emit env0 ''S'' 0 None logger_SHML))) = []
   \<and> ValidateEvent ''S'' 0 \<in> set (new_calls logger_SHML (snd (emit env0 ''S'' 0 None logger_SHML)))
   \<and> ValidateEvent ''S'' 0 \<notin> set (new_calls logger_SHM (snd (emit env0 ''S'' 0 None logger_SHM)))
   \<and> length (recorded (calls (snd (emit env0 ''S'' 0 None logger_SHM)))) = 1"
proof -
  have g: "get (schemas logger_SHML) ''S'' = Some schema_S" by (simp add: schemas_S get_S)
  have l: "0 < length (heap logger_SHML)" by (simp add: logger_SHML_eq store0_def)
  have raw: "\<not> validate schema_S (heap logger_SHML ! 0)"
    by (simp add: logger_SHML_eq store0_def schema_S_def)
  have ok: "validate schema_S (heap (logger_SHML\<lparr>heap := store0 @ [[''x'' \<mapsto> PInt 1]]\<rparr>) ! 3)"
    by (simp add: store0_def schema_S_def)
  have u: "unmodified_listeners logger_SHML ''S'' \<noteq> Some {}" by (simp add: logger_SHML_eq)
  from emit_validates_original_iff_listener[OF registered_S(5) g modify_SHML_0 emit_pair l]
    raw ok u
  have a: "fst (emit env0 ''S'' 0 None logger_SHML) = Raised ValidationError
      \<and> recorded (calls (snd (emit env0 ''S'' 0 None logger_SHML))) = recorded (calls logger_SHML)
      \<and> ValidateEvent ''S'' 0
          \<in> set (new_calls logger_SHML (snd (emit env0 ''S'' 0 None logger_SHML)))"
    by blast
  have g': "get (schemas logger_SHM) ''S'' = Some schema_S" by (simp add: schemas_S get_S)
  have l': "0 < length (heap logger_SHM)" by (simp add: logger_SHM_eq store0_def)
  have raw': "\<not> validate schema_S (heap logger_SHM ! 0)"
    by (simp add: logger_SHM_eq store0_def schema_S_def)
  have ok': "validate schema_S (heap (logger_SHM\<lparr>heap := store0 @ [[''x'' \<mapsto> PInt 1]]\<rparr>) ! 3)"
    by (simp add: store0_def schema_S_def)
  have u': "unmodified_listeners logger_SHM ''S'' = Some {}" by (simp add: logger_SHM_eq)
  have go': "no_handlers_or_listeners logger_SHM ''S'' = Returned False"
    by (simp add: no_handlers_or_listeners_def logger_SHM_eq)
  from emit_validates_original_iff_listener[OF registered_S(4) g' modify_SHM_0 emit_pair l']
    raw' ok' u' go'
  have b: "ValidateEvent ''S'' 0
        \<notin> set (new_calls logger_SHM (snd (emit env0 ''S'' 0 None logger_SHM)))
      \<and> (\<exists>c. recorded (calls (snd (emit env0 ''S'' 0 None logger_SHM)))
            = recorded (calls logger_SHM) @ [c])"
    by blast
  from a b show ?thesis by (auto simp: logger_SHML_eq logger_SHM_eq)
qed

text \<open>
  C4 as stated fails: with the schema \<open>S\<close> registered, the modifier registered, no
  listener and no handler, the original data \<open>{x: "bad"}\<close> is invalid and the modified
  data would be valid, and \<^verbatim>\<open>emit\<close> returns \<^verbatim>\<open>None\<close> at its first test: nothing is
  recorded.
\<close>

theorem emit_without_handlers_records_nothing:
  "unmodified_listeners logger_SM ''S'' = Some {}
   \<and> \<not> validate schema_S (heap logger_SM ! 0)
   \<and> fst (modify env0 ''S'' schema_S 0 logger_SM) = Returned 3
   \<and> validate schema_S (heap (snd (modify env0 ''S'' schema_S 0 logger_SM)) ! 3)
   \<and> emit env0 ''S'' 0 None logger_SM = (Returned None, logger_SM)
   \<and> recorded (calls logger_SM) = []"
  by (simp add: modify_SM_0)
     (simp add: logger_SM_eq store0_def schema_S_def emit_def no_handlers_or_listeners_def)

subsection \<open>The envelope\<close>






subsection \<open>The first test of \<^verbatim>\<open>emit\<close>\<close>

text \<open>
  C6. The claim: for every schema id and data, with no handler registered and no listener
  of either kind for the schema, \<^verbatim>\<open>emit\<close> returns \<^verbatim>\<open>None\<close> at once. The code: on a new
  logger, which has no handler and no listener at all, \<^verbatim>\<open>emit\<close> for the schema id
  \<open>S\<close> raises \<^verbatim>\<open>KeyError\<close>, because the test indexes the listener tables with an id they
  do not have. (For an id that has its entries, \<open>emit_fast_exit\<close> above is the claim.)
\<close>

theorem emit_first_test_raises_without_entry:
  "emit env0 ''S'' 0 None (new_logger store0)
     = (Raised (KeyError (Some ''S'')), new_logger store0)"
  by (simp add: emit_def no_handlers_or_listeners_def new_logger_def)

subsection \<open>The caller's data\<close>

text \<open>
  C7. \<^verbatim>\<open>emit\<close> never changes the dictionary the caller passed: the modifiers work on
  a deep copy, so whether \<^verbatim>\<open>emit\<close> returns or raises, for every schema id and every
  set of modifiers, the caller's dictionary has the content it had before.
\<close>

theorem emit_never_mutates_data:
  assumes "emit env schema_id data timestamp_override st = (r, st')"
    and "data < length (heap st)"
  shows "heap st' ! data = heap st ! data"
  using assms
  by (auto simp: emit_def split: result.splits bool.splits if_splits option.splits
      dest: emit_registered_heap)

theorem emit_never_mutates_data_witness:
  "heap (snd (emit env0 ''S'' 0 None logger_SHM)) ! 0 = heap logger_SHM ! 0
   \<and> (heap (snd (emit env0 ''S'' 0 None logger_SHM)) ! 0) ''x'' = Some (PStr ''bad'')
   \<and> (heap (snd (emit env0 ''S'' 0 None logger_SHM)) ! 3) ''x'' = Some (PInt 1)"
proof -
  have l: "0 < length (heap logger_SHM)" by (simp add: logger_SHM_eq store0_def)
  have "heap (snd (emit env0 ''S'' 0 None logger_SHM)) ! 0 = heap logger_SHM ! 0"
    by (rule emit_never_mutates_data[OF emit_pair l])
  moreover have "(heap logger_SHM ! 0) ''x'' = Some (PStr ''bad'')"
    by (simp add: logger_SHM_eq store0_def)
  moreover have "(heap (snd (emit env0 ''S'' 0 None logger_SHM)) ! 3) ''x'' = Some (PInt 1)"
    by (simp add: eval_defs logger_SHM_eq)
  ultimately show ?thesis by simp
qed

subsection \<open>Adding, then removing\<close>

text \<open>
  C8, as amended. For a schema id registered with the logger and a callable that is not
  yet registered for that id (a modifier of the required signature that is not in the
  id's modifier set; a listener of the required signature that is in neither of the id's
  listener sets), the add operation for that id followed by the matching remove operation
  succeeds and leaves the id's three callback sets as they were before the add. (The
  empty string is a false schema id in Python, so removing for it goes over every id of
  the registry: there each of them must have its entries.)
\<close>

theorem add_then_remove_restores_tables:
  assumes reg: "registered st schema_id"
    and con: "schema_id = [] \<longrightarrow> consistent st"
    and f: "callable f"
  shows "(inspect_signature f = modifier_signature \<and> \<not> in_table (modifiers st) schema_id f \<longrightarrow>
            fst (add_then_remove_modifier schema_id f st) = Returned ()
            \<and> tables_at (snd (add_then_remove_modifier schema_id f st)) schema_id
                = tables_at st schema_id)
       \<and> (inspect_signature f = listener_signature
            \<and> \<not> in_table (modified_listeners st) schema_id f
            \<and> \<not> in_table (unmodified_listeners st) schema_id f \<longrightarrow>
            (\<forall>modified.
               fst (add_then_remove_listener modified schema_id f st) = Returned ()
               \<and> tables_at (snd (add_then_remove_listener modified schema_id f st)) schema_id
                   = tables_at st schema_id))"
proof (intro conjI impI allI)
  from reg have c: "contains (schemas st) schema_id" by (simp add: registered_def)
  from reg obtain ms s u
    where ms: "modifiers st schema_id = Some ms"
      and s: "modified_listeners st schema_id = Some s"
      and u: "unmodified_listeners st schema_id = Some u"
    by (auto simp: registered_def has_tables_def)
  {
    assume a: "inspect_signature f = modifier_signature
      \<and> \<not> in_table (modifiers st) schema_id f"
    then have n: "f \<notin> ms" by (simp add: in_table_def ms)
    let ?st1 = "st\<lparr>modifiers := (modifiers st)(schema_id \<mapsto> insert f ms)\<rparr>"
    have add: "add_modifier (Some schema_id) f st = (Returned (), ?st1)"
      using add_modifier_at[OF f _ ms] a by simp
    have con1: "schema_id = [] \<longrightarrow> consistent ?st1"
      using con by (auto intro!: consistent_update[of st] simp: has_tables_def)
    have c1: "contains (schemas ?st1) schema_id" using c by simp
    have m1: "modifiers ?st1 schema_id = Some (insert f ms)" by simp
    from remove_modifier_at[OF con1 c1 m1, of f] obtain st2
      where "remove_modifier (Some schema_id) f ?st1 = (Returned (), st2)"
        and "tables_at st2 schema_id = tables_at st schema_id"
      using n by (auto simp: tables_at_def ms)
    with add show "fst (add_then_remove_modifier schema_id f st) = Returned ()"
      and "tables_at (snd (add_then_remove_modifier schema_id f st)) schema_id
             = tables_at st schema_id"
      by (simp_all add: add_then_remove_modifier_def)
  }
  fix modified
  assume a: "inspect_signature f = listener_signature
    \<and> \<not> in_table (modified_listeners st) schema_id f
    \<and> \<not> in_table (unmodified_listeners st) schema_id f"
  then have ns: "f \<notin> s" and nu: "f \<notin> u" and sg: "inspect_signature f = listener_signature"
    by (simp_all add: in_table_def s u)
  have "\<exists>st1 st2. add_listener modified (Some schema_id) f st = (Returned (), st1)
      \<and> remove_listener (Some schema_id) f st1 = (Returned (), st2)
      \<and> tables_at st2 schema_id = tables_at st schema_id"
  proof (cases modified)
    case True
    let ?st1 = "st\<lparr>modified_listeners := (modified_listeners st)(schema_id \<mapsto> insert f s)\<rparr>"
    have add: "add_listener modified (Some schema_id) f st = (Returned (), ?st1)"
      using add_listener_at_modified[OF f sg s c] True by simp
    have con1: "schema_id = [] \<longrightarrow> consistent ?st1"
      using con by (auto intro!: consistent_update[of st] simp: has_tables_def)
    have c1: "contains (schemas ?st1) schema_id" using c by simp
    have m1: "modified_listeners ?st1 schema_id = Some (insert f s)" by simp
    have u1: "unmodified_listeners ?st1 schema_id = Some u" using u by simp
    from remove_listener_at[OF con1 c1 m1 u1, of f] obtain st2
      where "remove_listener (Some schema_id) f ?st1 = (Returned (), st2)"
        and "tables_at st2 schema_id = tables_at st schema_id"
      using ns nu by (auto simp: tables_at_def s u)
    with add show ?thesis by blast
  next
    case False
    let ?st1 = "st\<lparr>unmodified_listeners := (unmodified_listeners st)(schema_id \<mapsto> insert f u)\<rparr>"
    have add: "add_listener modified (Some schema_id) f st = (Returned (), ?st1)"
      using add_listener_at_unmodified[OF f sg u c] False by simp
    have con1: "schema_id = [] \<longrightarrow> consistent ?st1"
      using con by (auto intro!: consistent_update[of st] simp: has_tables_def)
    have c1: "contains (schemas ?st1) schema_id" using c by simp
    have m1: "modified_listeners ?st1 schema_id = Some s" using s by simp
    have u1: "unmodified_listeners ?st1 schema_id = Some (insert f u)" by simp
    from remove_listener_at[OF con1 c1 m1 u1, of f] obtain st2
      where "remove_listener (Some schema_id) f ?st1 = (Returned (), st2)"
        and "tables_at st2 schema_id = tables_at st schema_id"
      using ns nu by (auto simp: tables_at_def s u)
    with add show ?thesis by blast
  qed
  then show "fst (add_then_remove_listener modified schema_id f st) = Returned ()"
    and "tables_at (snd (add_then_remove_listener modified schema_id f st)) schema_id
           = tables_at st schema_id"
    by (auto simp: add_then_remove_listener_def)
qed

theorem add_then_remove_restores_tables_witness:
  "in_table (modifiers (snd (add_modifier (Some ''S'') fix_x logger_S))) ''S'' fix_x
   \<and> fst (add_then_remove_modifier ''S'' fix_x logger_S) = Returned ()
   \<and> tables_at (snd (add_then_remove_modifier ''S'' fix_x logger_S)) ''S''
       = (Some {}, Some {}, Some {})
   \<and> fst (add_then_remove_listener False ''S'' listener_L logger_S) = Returned ()
   \<and> tables_at (snd (add_then_remove_listener False ''S'' listener_L logger_S)) ''S''
       = (Some {}, Some {}, Some {})
   \<and> fst (add_then_remove_listener True ''S'' listener_L logger_S) = Returned ()
   \<and> tables_at (snd (add_then_remove_listener True ''S'' listener_L logger_S)) ''S''
       = (Some {}, Some {}, Some {})"
proof -
  have t: "tables_at logger_S ''S'' = (Some {}, Some {}, Some {})"
    by (simp add: tables_at_def logger_S_eq)
  have m: "callable fix_x" "inspect_signature fix_x = modifier_signature"
    "\<not> in_table (modifiers logger_S) ''S'' fix_x"
    by (simp_all add: fix_x_def in_table_def logger_S_eq)
  have l: "callable listener_L" "inspect_signature listener_L = listener_signature"
    "\<not> in_table (modified_listeners logger_S) ''S'' listener_L"
    "\<not> in_table (unmodified_listeners logger_S) ''S'' listener_L"
    by (simp_all add: listener_L_def in_table_def logger_S_eq)
  have p: "in_table (modifiers (snd (add_modifier (Some ''S'') fix_x logger_S))) ''S'' fix_x"
    by (simp add: add_modifier_def in_table_def logger_S_eq fix_x_def)
  have e: "''S'' = [] \<longrightarrow> consistent logger_S" by simp
  from add_then_remove_restores_tables[OF registered_S(1) e m(1)] m(2,3)
  have a: "fst (add_then_remove_modifier ''S'' fix_x logger_S) = Returned ()
      \<and> tables_at (snd (add_then_remove_modifier ''S'' fix_x logger_S)) ''S''
          = tables_at logger_S ''S''"
    by blast
  from add_then_remove_restores_tables[OF registered_S(1) e l(1)] l(2,3,4)
  have b: "\<forall>modified.
      fst (add_then_remove_listener modified ''S'' listener_L logger_S) = Returned ()
      \<and> tables_at (snd (add_then_remove_listener modified ''S'' listener_L logger_S)) ''S''
          = tables_at logger_S ''S''"
    by blast
  from p a b[rule_format, of False] b[rule_format, of True] show ?thesis by (simp add: t)
qed

text \<open>
  C8 as stated fails: the modifier is already registered for \<open>S\<close>; adding it again
  changes nothing, removing it then empties the set, which held the modifier before.
\<close>

theorem add_then_remove_present_modifier:
  "callable fix_x \<and> inspect_signature fix_x = modifier_signature
   \<and> registered logger_SM ''S''
   \<and> fst (add_then_remove_modifier ''S'' fix_x logger_SM) = Returned ()
   \<and> tables_at logger_SM ''S'' = (Some {fix_x}, Some {}, Some {})
   \<and> tables_at (snd (add_then_remove_modifier ''S'' fix_x logger_SM)) ''S''
       = (Some {}, Some {}, Some {})
   \<and> tables_at (snd (add_then_remove_modifier ''S'' fix_x logger_SM)) ''S''
       \<noteq> tables_at logger_SM ''S''"
  by (simp add: registered_S)
     (simp add: add_then_remove_modifier_def add_modifier_def remove_modifier_def tables_at_def
        logger_SM_eq fix_x_def)

subsection \<open>Registering a schema again\<close>

text \<open>
  C10. Whenever the schema registry accepts a registration (also for an id that is
  already registered), \<^verbatim>\<open>register_event_schema\<close> succeeds and sets the modifier set, the
  set of listeners of the modified data and the set of listeners of the original data of
  the schema's id to empty, whatever they held before.
\<close>

theorem register_event_schema_resets_tables:
  assumes "registry_register (schemas st) source = Returned (event_schema, reg)"
  shows "fst (register_event_schema registry_register source st) = Returned ()
     \<and> tables_at (snd (register_event_schema registry_register source st)) (id' event_schema)
         = (Some {}, Some {}, Some {})"
  using assms by (simp add: register_event_schema_def tables_at_def Let_def)

theorem register_event_schema_resets_tables_witness:
  "contains (schemas logger_SHML) ''S''
   \<and> tables_at logger_SHML ''S'' = (Some {fix_x}, Some {}, Some {listener_L})
   \<and> fst (register_event_schema (register accept_all) schema_S logger_SHML) = Returned ()
   \<and> tables_at (snd (register_event_schema (register accept_all) schema_S logger_SHML)) ''S''
        = (Some {}, Some {}, Some {})"
proof -
  have a: "register accept_all (schemas logger_SHML) schema_S
      = Returned (schema_S, filter (\<lambda>s. id' s \<noteq> id' schema_S) (schemas logger_SHML) @ [schema_S])"
    by (simp add: register_def accept_all_def)
  have i: "id' schema_S = ''S''" by (simp add: schema_S_def)
  have c: "contains (schemas logger_SHML) ''S''"
    by (simp add: contains_def schema_ids_def schemas_S i)
  from register_event_schema_resets_tables[of "register accept_all" logger_SHML schema_S, OF a] c
  show ?thesis by (simp add: i) (simp add: tables_at_def logger_SHML_eq)
qed

end
